theory Spec2Isabelle
  imports Complex_Main "HOL-Library.Product_Lexorder" "HOL-Library.Log_Nat"
begin

section \<open>Python values used by the music cog\<close>

text \<open>
  The cog keeps every track, format and player as a Python dict and tests entries for
  truthiness. An entry that may be missing or \<^verbatim>\<open>None\<close> is an \<open>option\<close>; a string entry is
  truthy when it is present and not empty. \<^verbatim>\<open>a or b\<close> is \<open>a\<close> when \<open>a\<close> is truthy and \<open>b\<close>
  otherwise.
\<close>

definition truthy :: "string option \<Rightarrow> bool" where
  "truthy x = (case x of None \<Rightarrow> False | Some s \<Rightarrow> s \<noteq> [])"

definition py_or :: "string option \<Rightarrow> string option \<Rightarrow> string option" where
  "py_or a b = (if truthy a then a else b)"

text \<open>\<^verbatim>\<open>x or 0\<close> on a bitrate: a missing bitrate counts as 0. Bitrates are exact rationals here.\<close>

definition or_zero :: "rat option \<Rightarrow> rat" where
  "or_zero x = (case x of None \<Rightarrow> 0 | Some r \<Rightarrow> r)"

text \<open>
  A Python float is an IEEE 754 double: a rational \<open>m * 2 ^ e\<close> with a significand \<open>m\<close> of
  at most 53 bits. \<open>double x\<close> is the double nearest to the rational \<open>x\<close>, ties going to the
  even significand; it is how a float literal is read and how the exact result of every
  float operation is rounded. \<open>ilog2 x\<close> is the \<open>k\<close> with \<open>2 ^ k \<le> x < 2 ^ (k + 1)\<close>.
  Overflow and subnormal numbers lie outside the range a volume reaches and are left out.
\<close>

definition round_half_even :: "rat \<Rightarrow> int" where
  "round_half_even y =
     (let f = \<lfloor>y\<rfloor>; d = y - of_int f
      in if d < 1 / 2 then f else if 1 / 2 < d then f + 1 else if even f then f else f + 1)"

definition ilog2 :: "rat \<Rightarrow> int" where
  "ilog2 x =
     (case quotient_of x of
        (p, q) \<Rightarrow> (let k = bitlen p - bitlen q in if power_int 2 k \<le> x then k else k - 1))"

definition double :: "rat \<Rightarrow> rat" where
  "double x =
     (if x = 0 then 0
      else (let e = ilog2 \<bar>x\<bar> - 52;
                m = round_half_even (\<bar>x\<bar> / power_int 2 e)
            in sgn x * of_int m * power_int 2 e))"

definition float_add :: "rat \<Rightarrow> rat \<Rightarrow> rat" where
  "float_add x y = double (x + y)"

definition float_sub :: "rat \<Rightarrow> rat \<Rightarrow> rat" where
  "float_sub x y = double (x - y)"

section \<open>Stream selection: \<^verbatim>\<open>_select_best_audio_url\<close>\<close>

text \<open>One entry of \<^verbatim>\<open>info["formats"]\<close>, with the keys the function reads.\<close>

record fmt =
  fmt_url :: "string option"
  fmt_src :: "string option"
  fmt_acodec :: "string option"
  fmt_abr :: "rat option"
  fmt_tbr :: "rat option"

text \<open>
  The extraction result for one video. \<open>info_formats\<close> is \<^verbatim>\<open>info.get("formats") or []\<close>: the
  source reads the key only through truthiness and through that expression, so a missing
  key, \<^verbatim>\<open>None\<close> and the empty list are the same value \<open>[]\<close>. \<open>info_thumbnails\<close> holds the
  \<^verbatim>\<open>url\<close> of each entry of \<^verbatim>\<open>info.get("thumbnails") or []\<close>.
\<close>

record info =
  info_url :: "string option"
  info_formats :: "fmt list"
  info_title :: "string option"
  info_webpage_url :: "string option"
  info_thumbnail :: "string option"
  info_thumbnails :: "string option list"

text \<open>
  The loop over the formats. Both branches of the test on \<^verbatim>\<open>acodec\<close> append, as in the
  source.
\<close>

fun collect_candidates :: "fmt list \<Rightarrow> fmt list \<Rightarrow> fmt list" where
  "collect_candidates [] candidates = candidates"
| "collect_candidates (f # fs) candidates =
     (let url = py_or (fmt_url f) (fmt_src f) in
      if \<not> truthy url then collect_candidates fs candidates
      else (let acodec = fmt_acodec f in
            if truthy acodec \<and> acodec \<noteq> Some ''none''
            then collect_candidates fs (candidates @ [f])
            else collect_candidates fs (candidates @ [f])))"

text \<open>
  The sort key \<^verbatim>\<open>(abr, tbr)\<close>. Python compares tuples lexicographically, which is the order
  of pairs of the library theory \<open>Product_Lexorder\<close>.
\<close>

definition score :: "fmt \<Rightarrow> rat \<times> rat" where
  "score f = (let abr = or_zero (fmt_abr f); tbr = or_zero (fmt_tbr f) in (abr, tbr))"

text \<open>
  \<^verbatim>\<open>sorted(xs, key=k, reverse=True)\<close>: Python reverses the list, sorts it stably in ascending
  order and reverses the result, so that equal keys keep their original order.
\<close>

definition sorted_reverse :: "('a \<Rightarrow> 'k::linorder) \<Rightarrow> 'a list \<Rightarrow> 'a list" where
  "sorted_reverse k xs = rev (sort_key k (rev xs))"

definition select_best_audio_url :: "info \<Rightarrow> string option" where
  "select_best_audio_url i =
     (if truthy (info_url i) \<and> info_formats i = [] then info_url i
      else (let candidates = collect_candidates (info_formats i) [] in
            if candidates = [] then None
            else (let best = hd (sorted_reverse score candidates) in
                  py_or (fmt_url best) (fmt_src best))))"

section \<open>Extraction with retry\<close>

text \<open>
  What \<^verbatim>\<open>extract_info\<close> returns: the dict of one video, a dict with the key
  \<^verbatim>\<open>entries\<close> (\<^verbatim>\<open>info.get("entries") or []\<close> is the list), or an empty dict, which is falsy.
\<close>

datatype extraction = Video info | Entries "info list" | EmptyDict

text \<open>The messages the scheduler sends to the guild's text channel.\<close>

datatype notice = SkippedTrack "string option" | PlaybackError

text \<open>
  The external collaborators, as the answers they give. \<open>None\<close> stands for a call that
  raises or returns nothing.
  \<^item> \<open>videos_search q\<close>: the link of the first result of \<^verbatim>\<open>VideosSearch(q, limit=1)\<close>;
  \<^item> \<open>extract_info\<close>, \<open>extract_info_web\<close>: \<^verbatim>\<open>extract_info\<close> of the cog's extractor and of
    the one made with \<^verbatim>\<open>player_client=web\<close>;
  \<^item> \<open>can_start url\<close>: \<^verbatim>\<open>FFmpegPCMAudio\<close> opens the stream at \<open>url\<close> without raising;
  \<^item> \<open>notice_channel\<close>: \<^verbatim>\<open>get_guild\<close> finds the guild and the guild has a text channel the
    bot may send to;
  \<^item> \<open>send_ok m\<close>: \<^verbatim>\<open>chan.send\<close> of the message \<open>m\<close> returns without raising;
  \<^item> \<open>clock\<close>: \<^verbatim>\<open>time.time()\<close>;
  \<^item> \<open>author_in_voice\<close>, \<open>connect_ok\<close>: the requester is in a voice channel, and connecting
    to it succeeds.
\<close>

record env =
  videos_search :: "string \<Rightarrow> string option"
  extract_info :: "string \<Rightarrow> extraction option"
  extract_info_web :: "string \<Rightarrow> extraction option"
  can_start :: "string option \<Rightarrow> bool"
  notice_channel :: bool
  send_ok :: "notice \<Rightarrow> bool"
  clock :: nat
  author_in_voice :: bool
  connect_ok :: bool

definition has_playable :: "extraction option \<Rightarrow> bool" where
  "has_playable x =
     (case x of
        None \<Rightarrow> False
      | Some EmptyDict \<Rightarrow> False
      | Some (Entries []) \<Rightarrow> False
      | Some (Entries (i # _)) \<Rightarrow>
          (case select_best_audio_url i of Some _ \<Rightarrow> True | None \<Rightarrow> truthy (info_url i))
      | Some (Video i) \<Rightarrow>
          (case select_best_audio_url i of Some _ \<Rightarrow> True | None \<Rightarrow> truthy (info_url i)))"

definition extract_info_with_retry :: "env \<Rightarrow> string \<Rightarrow> extraction option" where
  "extract_info_with_retry e target =
     (let info = extract_info e target in
      if has_playable info then info
      else (let info2 = extract_info_web e target in
            if has_playable info2 then info2
            else (case info2 of
                    None \<Rightarrow> info
                  | Some EmptyDict \<Rightarrow> info
                  | Some _ \<Rightarrow> info2)))"

section \<open>Tracks and lazy resolution\<close>

record track =
  title :: "string option"
  webpage_url :: "string option"
  stream_url :: "string option"
  duration :: "int option"
  thumbnail :: "string option"
  query :: "string option"

text \<open>
  The tail of \<^verbatim>\<open>_resolve_lazy_track\<close>, from the choice of the stream on. The source updates
  the dict in place and returns it; here the updated track is returned, and \<open>None\<close> leaves
  the track as it was.
\<close>

definition fill_track :: "track \<Rightarrow> info \<Rightarrow> track option" where
  "fill_track t i =
     (let stream = py_or (select_best_audio_url i) (info_url i) in
      if \<not> truthy stream then None
      else (let t1 = t\<lparr>stream_url := stream\<rparr>;
                t2 = (if truthy (info_title i) then t1\<lparr>title := info_title i\<rparr> else t1);
                t3 = (if truthy (info_webpage_url i)
                      then t2\<lparr>webpage_url := info_webpage_url i\<rparr> else t2);
                thumb = (if truthy (info_thumbnail i) then info_thumbnail i
                         else if info_thumbnails i \<noteq> [] then last (info_thumbnails i)
                         else info_thumbnail i)
            in Some (if truthy thumb then t3\<lparr>thumbnail := thumb\<rparr> else t3)))"

definition resolve_lazy_track :: "env \<Rightarrow> track \<Rightarrow> track option" where
  "resolve_lazy_track e t =
     (if truthy (stream_url t) then Some t
      else (case query t of
              None \<Rightarrow> None
            | Some q \<Rightarrow>
                if q = [] then None
                else (let found = videos_search e q;
                          target = (case found of
                                      None \<Rightarrow> ''ytsearch1:'' @ q
                                    | Some link \<Rightarrow> if link = [] then ''ytsearch1:'' @ q else link)
                      in case extract_info_with_retry e target of
                           None \<Rightarrow> None
                         | Some EmptyDict \<Rightarrow> None
                         | Some (Entries []) \<Rightarrow> None
                         | Some (Entries (i # _)) \<Rightarrow> fill_track t i
                         | Some (Video i) \<Rightarrow> fill_track t i)))"

section \<open>The player of one guild\<close>

text \<open>
  The voice client of discord.py is outside the repository. Its state is what
  \<^verbatim>\<open>is_playing()\<close> and \<^verbatim>\<open>is_paused()\<close> report.
\<close>

datatype vc_state = Silent | Playing | Paused

text \<open>
  The dict made by \<^verbatim>\<open>get_player\<close>, without the entries of the status panel (message and
  channel ids, the refresh task, the activity time stamp), which no operation below reads.
\<close>

record player =
  voice_client :: "vc_state option"
  queue :: "track list"
  now :: "track option"
  volume :: rat
  repeat :: string
  is_playlist :: bool
  start_time :: "nat option"
  playlist_name :: "string option"

text \<open>A player together with the notices sent so far.\<close>

record world = player +
  sent :: "notice list"

text \<open>The player \<^verbatim>\<open>get_player\<close> makes for a guild it has not seen, with nothing sent yet.\<close>

definition get_player :: world where
  "get_player =
     \<lparr>voice_client = None, queue = [], now = None, volume = double (15 / 100),
      repeat = ''off'',
      is_playlist = False, start_time = None, playlist_name = None, sent = []\<rparr>"

text \<open>
  What ends a coroutine other than its return: the interpreter's recursion limit, and a
  failed \<^verbatim>\<open>chan.send\<close>. Neither is caught in \<^verbatim>\<open>_play_next\<close> or \<^verbatim>\<open>_after_play\<close>.
\<close>

datatype error = RecursionError | SendFailed

text \<open>
  The notice of \<^verbatim>\<open>_play_next\<close>: sent when there is a channel for it, and the send may raise.
\<close>

definition notify :: "env \<Rightarrow> notice \<Rightarrow> world \<Rightarrow> error + world" where
  "notify e m w =
     (if notice_channel e
      then (if send_ok e m then Inr (w\<lparr>sent := sent w @ [m]\<rparr>) else Inl SendFailed)
      else Inr w)"

section \<open>The scheduler: \<^verbatim>\<open>_after_play\<close> and \<^verbatim>\<open>_play_next\<close>\<close>

text \<open>\<^verbatim>\<open>_after_play\<close> up to its \<^verbatim>\<open>sleep\<close>: the repeat policy, then the slot is cleared.\<close>

definition after_play_reinsert :: "world \<Rightarrow> world" where
  "after_play_reinsert w =
     (let rep = repeat w;
          w1 = (case now w of
                  None \<Rightarrow> w
                | Some t \<Rightarrow>
                    if rep = ''single'' then w\<lparr>queue := t # queue w\<rparr>
                    else if rep = ''all'' then w\<lparr>queue := queue w @ [t]\<rparr>
                    else w)
      in w1\<lparr>now := None, start_time := None\<rparr>)"

text \<open>
  \<^verbatim>\<open>_play_next\<close> awaits itself after a failed resolution and, through \<^verbatim>\<open>_after_play\<close>, after a
  failed start, so each further track nests one more coroutine inside the ones that wait
  for it. The second argument is the number of nested calls of \<^verbatim>\<open>_play_next\<close> the
  interpreter's recursion limit still has room for; a call beyond it raises
  \<^verbatim>\<open>RecursionError\<close>. An exception leaves the player as it is at that moment, so the result is
  the player together with the exception, if any. The call of \<^verbatim>\<open>_after_play\<close> in the exception
  handler is written out as \<open>after_play_reinsert\<close> followed by the next call of
  \<^verbatim>\<open>_play_next\<close>. A start fails when \<^verbatim>\<open>FFmpegPCMAudio\<close> raises, before the start time is set,
  or when \<^verbatim>\<open>vc.play\<close> raises because the client already plays, after it is set.
\<close>

fun play_next :: "env \<Rightarrow> nat \<Rightarrow> world \<Rightarrow> world \<times> error option" where
  "play_next e 0 w = (w, Some RecursionError)"
| "play_next e (Suc n) w =
     (case voice_client w of
        None \<Rightarrow> (w, None)
      | Some vc \<Rightarrow>
          (case queue w of
             [] \<Rightarrow> (w\<lparr>now := None\<rparr>, None)
           | next_track # rest \<Rightarrow>
               (let w1 = w\<lparr>queue := rest\<rparr>;
                    resolved = (if \<not> truthy (stream_url next_track) \<and> truthy (query next_track)
                                then resolve_lazy_track e next_track
                                else Some next_track)
                in case resolved of
                     None \<Rightarrow>
                       (case notify e (SkippedTrack (title next_track)) w1 of
                          Inl err \<Rightarrow> (w1, Some err)
                        | Inr w2 \<Rightarrow> play_next e n w2)
                   | Some t \<Rightarrow>
                       (let w2 = w1\<lparr>now := Some t\<rparr>;
                            (w3, started) =
                              (if \<not> can_start e (stream_url t) then (w2, False)
                               else (let w2' = w2\<lparr>start_time := Some (clock e)\<rparr>
                                     in if vc = Playing then (w2', False)
                                        else (w2'\<lparr>voice_client := Some Playing\<rparr>, True)))
                        in if started then (w3, None)
                           else (case notify e PlaybackError w3 of
                                   Inl err \<Rightarrow> (w3, Some err)
                                 | Inr w4 \<Rightarrow> play_next e n (after_play_reinsert w4))))))"

definition after_play :: "env \<Rightarrow> nat \<Rightarrow> world \<Rightarrow> world \<times> error option" where
  "after_play e n w = play_next e n (after_play_reinsert w)"

section \<open>Commands and the completion callback\<close>

text \<open>
  Modelled from the spec: \<^verbatim>\<open>vc.stop()\<close> belongs to the voice transport, which is not part of
  the repository. Section 4.3 gives its contract: the completion callback passed to
  \<^verbatim>\<open>play\<close> is invoked exactly once per start, on natural end or explicit stop. So stopping
  a client that plays or is paused silences it and fires the callback
  (\<^verbatim>\<open>_after_play\<close>, registered by \<^verbatim>\<open>_play_next\<close>); stopping a silent client does nothing.
  The second component tells whether the callback fires.
\<close>

definition vc_stop :: "vc_state \<Rightarrow> vc_state \<times> bool" where
  "vc_stop vc = (Silent, vc \<noteq> Silent)"

datatype reply = NothingToSkip | Skipped | NotConnected | StoppedAndCleared | NoPlayer | Volume rat

text \<open>
  A command runs up to its first \<^verbatim>\<open>await\<close> without interruption and returns the player, its
  reply and whether a completion callback is now pending.
\<close>

definition skip :: "world \<Rightarrow> world \<times> reply \<times> bool" where
  "skip w =
     (case voice_client w of
        None \<Rightarrow> (w, NothingToSkip, False)
      | Some vc \<Rightarrow>
          if vc \<noteq> Playing \<and> vc \<noteq> Paused then (w, NothingToSkip, False)
          else (let (vc', fired) = vc_stop vc
                in (w\<lparr>voice_client := Some vc'\<rparr>, Skipped, fired)))"

definition stop :: "world \<Rightarrow> world \<times> reply \<times> bool" where
  "stop w =
     (case voice_client w of
        None \<Rightarrow> (w, NotConnected, False)
      | Some vc \<Rightarrow>
          (let (vc', fired) = vc_stop vc;
               w1 = w\<lparr>voice_client := Some vc'\<rparr>;
               w2 = w1\<lparr>queue := []\<rparr>;
               w3 = w2\<lparr>is_playlist := False\<rparr>
           in (w3, StoppedAndCleared, fired)))"

text \<open>The stop button of the panel, \<^verbatim>\<open>MusicPanel.stop\<close>.\<close>

definition panel_stop :: "world \<Rightarrow> world \<times> reply \<times> bool" where
  "panel_stop w =
     (case voice_client w of
        None \<Rightarrow> (w, NotConnected, False)
      | Some vc \<Rightarrow>
          (let (vc', fired) = vc_stop vc;
               w1 = w\<lparr>voice_client := Some vc'\<rparr>;
               w2 = w1\<lparr>queue := []\<rparr>
           in (w2, StoppedAndCleared, fired)))"

text \<open>
  The event loop then runs the pending callback: \<^verbatim>\<open>_after_play\<close>, scheduled on the bot's
  loop by \<^verbatim>\<open>run_coroutine_threadsafe\<close>.
\<close>

definition run_callback ::
  "env \<Rightarrow> nat \<Rightarrow> world \<times> reply \<times> bool \<Rightarrow> world \<times> error option" where
  "run_callback e n r =
     (case r of (w, _, fired) \<Rightarrow> if fired then after_play e n w else (w, None))"

section \<open>Volume buttons\<close>

text \<open>
  \<^verbatim>\<open>vol_up\<close> and \<^verbatim>\<open>vol_down\<close> of the panel. The argument is \<^verbatim>\<open>players.get(guild_id)\<close>.
  The sum and the difference are float operations, and \<^verbatim>\<open>0.05\<close> is the double nearest to
  5/100.
\<close>

definition vol_up :: "world option \<Rightarrow> world option \<times> reply" where
  "vol_up player =
     (case player of
        None \<Rightarrow> (None, NoPlayer)
      | Some p \<Rightarrow>
          (let p' = p\<lparr>volume := min 1 (float_add (volume p) (double (5 / 100)))\<rparr>
           in (Some p', Volume (volume p'))))"

definition vol_down :: "world option \<Rightarrow> world option \<times> reply" where
  "vol_down player =
     (case player of
        None \<Rightarrow> (None, NoPlayer)
      | Some p \<Rightarrow>
          (let p' = p\<lparr>volume := max 0 (float_sub (volume p) (double (5 / 100)))\<rparr>
           in (Some p', Volume (volume p'))))"

text \<open>A run of button presses, in the order given.\<close>

datatype vol_button = VolUp | VolDown

fun press :: "vol_button list \<Rightarrow> world option \<Rightarrow> world option" where
  "press [] player = player"
| "press (VolUp # bs) player = press bs (fst (vol_up player))"
| "press (VolDown # bs) player = press bs (fst (vol_down player))"

section \<open>Bulk import: \<^verbatim>\<open>spotify_playlist\<close>\<close>

text \<open>
  One entry of a page is \<^verbatim>\<open>it.get("track")\<close>, with the keys the loop reads; \<open>sp_artists\<close>
  holds the \<^verbatim>\<open>name\<close> of each artist. The client answers two calls: \<open>playlist_meta\<close> is
  \<^verbatim>\<open>playlist(pid, ...)\<close> as the pair of \<^verbatim>\<open>tracks.total\<close> and \<^verbatim>\<open>name\<close>, and
  \<open>playlist_items limit offset\<close> is \<^verbatim>\<open>results.get("items", []) or []\<close> of one page. \<open>None\<close>
  is a call that raises.
\<close>

record spotify_track =
  sp_name :: "string option"
  sp_artists :: "string option list"
  sp_url :: "string option"
  sp_duration_ms :: "int option"

record spotify =
  playlist_meta :: "(int option \<times> string option) option"
  playlist_items :: "int \<Rightarrow> int \<Rightarrow> spotify_track option list option"

definition SPOTIFY_PLAYLIST_LIMIT :: int where
  "SPOTIFY_PLAYLIST_LIMIT = 200"

definition per_page :: int where
  "per_page = 100"

fun join :: "string \<Rightarrow> string list \<Rightarrow> string" where
  "join sep [] = []"
| "join sep [x] = x"
| "join sep (x # y # ys) = x @ sep @ join sep (y # ys)"

text \<open>A value inside an f-string: \<^verbatim>\<open>None\<close> prints as the word.\<close>

definition fstr :: "string option \<Rightarrow> string" where
  "fstr x = (case x of None \<Rightarrow> ''None'' | Some s \<Rightarrow> s)"

definition track_of :: "spotify_track \<Rightarrow> track" where
  "track_of track_obj =
     (let title = sp_name track_obj;
          artists = join '', ''
                      (List.map_filter (\<lambda>a. if truthy a then a else None) (sp_artists track_obj));
          spotify_url = sp_url track_obj;
          search_query = (if artists \<noteq> [] then Some (fstr title @ '' '' @ artists) else title)
      in \<lparr>title = (if artists \<noteq> [] then Some (fstr title @ '' - '' @ artists) else title),
          webpage_url = spotify_url,
          stream_url = None,
          duration = (case sp_duration_ms track_obj of
                        None \<Rightarrow> None
                      | Some ms \<Rightarrow> if ms = 0 then None else Some (ms div 1000)),
          thumbnail = None,
          query = search_query\<rparr>)"

text \<open>
  The \<^verbatim>\<open>for\<close> loop over one page. The state is the queue with the counters \<^verbatim>\<open>added\<close> and
  \<^verbatim>\<open>fetched\<close>; the loop breaks when the cap is reached.
\<close>

fun add_items ::
  "spotify_track option list \<Rightarrow> track list \<times> int \<times> int \<Rightarrow> track list \<times> int \<times> int" where
  "add_items [] st = st"
| "add_items (it # its) (q, added, fetched) =
     (case it of
        None \<Rightarrow> add_items its (q, added, fetched)
      | Some track_obj \<Rightarrow>
          (let q' = q @ [track_of track_obj];
               added' = added + 1;
               fetched' = fetched + 1
           in if SPOTIFY_PLAYLIST_LIMIT \<noteq> 0 \<and> fetched' \<ge> SPOTIFY_PLAYLIST_LIMIT
              then (q', added', fetched')
              else add_items its (q', added', fetched')))"

text \<open>
  The \<^verbatim>\<open>while True\<close> loop. A page of entries without a track does not advance \<^verbatim>\<open>fetched\<close>, so
  the loop is bounded by the first argument (\<open>None\<close>: bound reached). The result tells
  whether the loop ended normally (\<open>True\<close>) or a fetch raised (\<open>False\<close>), with the queue and
  \<^verbatim>\<open>added\<close> as they are at that moment.
\<close>

fun fetch_pages ::
  "spotify \<Rightarrow> int option \<Rightarrow> nat \<Rightarrow> int \<Rightarrow> int \<Rightarrow> track list \<times> int
     \<Rightarrow> (bool \<times> track list \<times> int) option" where
  "fetch_pages sp total_expected 0 fetched offset (q, added) = None"
| "fetch_pages sp total_expected (Suc n) fetched offset (q, added) =
     (let to_fetch = (if SPOTIFY_PLAYLIST_LIMIT \<noteq> 0
                      then min per_page (max 1 (SPOTIFY_PLAYLIST_LIMIT - fetched))
                      else per_page)
      in if to_fetch \<le> 0 then Some (True, q, added)
         else (case playlist_items sp to_fetch offset of
                 None \<Rightarrow> Some (False, q, added)
               | Some items \<Rightarrow>
                   if items = [] then Some (True, q, added)
                   else (case add_items items (q, added, fetched) of
                           (q', added', fetched') \<Rightarrow>
                             (let offset' = offset + int (length items)
                              in if SPOTIFY_PLAYLIST_LIMIT \<noteq> 0
                                    \<and> fetched' \<ge> SPOTIFY_PLAYLIST_LIMIT
                                 then Some (True, q', added')
                                 else if (case total_expected of
                                            None \<Rightarrow> False
                                          | Some tot \<Rightarrow> offset' \<ge> tot)
                                 then Some (True, q', added')
                                 else if int (length items) < to_fetch
                                 then Some (True, q', added')
                                 else fetch_pages sp total_expected n fetched' offset'
                                        (q', added')))))"

datatype import_reply = CouldNotFetch | Added int

text \<open>
  \<^verbatim>\<open>spotify_playlist\<close> from the paginated fetch to the point where the playlist flag is set
  (the client is configured and the playlist id parsed). A failed fetch returns before the
  flag is touched.
\<close>

definition import_playlist :: "spotify \<Rightarrow> nat \<Rightarrow> world \<Rightarrow> (world \<times> import_reply) option" where
  "import_playlist sp n w =
     (case (case playlist_meta sp of
              None \<Rightarrow> (None, w)
            | Some (tot, name) \<Rightarrow>
                (tot, if truthy name then w\<lparr>playlist_name := name\<rparr> else w)) of
        (total_expected, w0) \<Rightarrow>
          (case fetch_pages sp total_expected n 0 0 (queue w0, 0) of
             None \<Rightarrow> None
           | Some (finished, q, added) \<Rightarrow>
               (let w1 = w0\<lparr>queue := q\<rparr>
                in if finished then Some (w1\<lparr>is_playlist := True\<rparr>, Added added)
                   else Some (w1, CouldNotFetch))))"

text \<open>
  \<^verbatim>\<open>ensure_voice\<close>: the bot's voice client of the guild is the one the player holds; a new
  one is silent. \<open>None\<close>: the requester is in no voice channel, or connecting failed.
\<close>

definition ensure_voice :: "env \<Rightarrow> world \<Rightarrow> world option" where
  "ensure_voice e w =
     (if \<not> author_in_voice e then None
      else (case voice_client w of
              Some vc \<Rightarrow> Some w
            | None \<Rightarrow> if connect_ok e then Some (w\<lparr>voice_client := Some Silent\<rparr>) else None))"

text \<open>
  The whole command, from the fetch on. The third argument bounds the fetch loop, the
  fourth is the nesting room of \<^verbatim>\<open>_play_next\<close>.
\<close>

definition spotify_playlist ::
  "spotify \<Rightarrow> env \<Rightarrow> nat \<Rightarrow> nat \<Rightarrow> world \<Rightarrow> (world \<times> import_reply \<times> error option) option" where
  "spotify_playlist sp e k n w =
     (case import_playlist sp k w of
        None \<Rightarrow> None
      | Some (w1, CouldNotFetch) \<Rightarrow> Some (w1, CouldNotFetch, None)
      | Some (w1, Added a) \<Rightarrow>
          (case ensure_voice e w1 of
             None \<Rightarrow> Some (w1, Added a, None)
           | Some w2 \<Rightarrow>
               if voice_client w2 \<noteq> Some Playing \<and> voice_client w2 \<noteq> Some Paused
               then (case play_next e n w2 of (w3, err) \<Rightarrow> Some (w3, Added a, err))
               else Some (w2, Added a, None)))"

section \<open>The course of an import that fails\<close>

text \<open>
  A description of the import the way a reader of the loop would give it, to compare the
  loop with. \<open>to_fetch_at fetched\<close> is the page size asked for when \<open>fetched\<close> tracks were
  taken; \<open>page_tracks items\<close> are the tracks one page contributes, in order;
  \<open>fails_after_pages sp tot fetched offset ps\<close> says that, from the given counters on,
  the client delivers the pages \<open>ps\<close> one after the other, none of them ends the loop (it is
  not empty, it is not short, neither the cap nor the announced total is reached), and
  the fetch after them raises.
\<close>

definition to_fetch_at :: "int \<Rightarrow> int" where
  "to_fetch_at fetched =
     (if SPOTIFY_PLAYLIST_LIMIT \<noteq> 0
      then min per_page (max 1 (SPOTIFY_PLAYLIST_LIMIT - fetched))
      else per_page)"

definition page_tracks :: "spotify_track option list \<Rightarrow> track list" where
  "page_tracks items = map track_of (List.map_filter (\<lambda>it. it) items)"

fun fails_after_pages ::
  "spotify \<Rightarrow> int option \<Rightarrow> int \<Rightarrow> int \<Rightarrow> spotify_track option list list \<Rightarrow> bool" where
  "fails_after_pages sp tot fetched offset [] =
     (playlist_items sp (to_fetch_at fetched) offset = None)"
| "fails_after_pages sp tot fetched offset (items # ps) =
     (playlist_items sp (to_fetch_at fetched) offset = Some items
      \<and> items \<noteq> []
      \<and> fetched + int (length (page_tracks items)) < SPOTIFY_PLAYLIST_LIMIT
      \<and> (case tot of None \<Rightarrow> True | Some t \<Rightarrow> offset + int (length items) < t)
      \<and> to_fetch_at fetched \<le> int (length items)
      \<and> fails_after_pages sp tot (fetched + int (length (page_tracks items)))
           (offset + int (length items)) ps)"

section \<open>Sample values\<close>

text \<open>
  Concrete formats, tracks, collaborators and players on which the theorems below are
  exercised. \<open>fmt_video_only\<close> is a stream without an audio track (\<^verbatim>\<open>acodec == "none"\<close>);
  \<open>fmt_plain\<close> is an audio stream whose bitrates are not reported.
\<close>

definition fmt_first :: fmt where
  "fmt_first = \<lparr>fmt_url = Some ''https://cdn/a'', fmt_src = None, fmt_acodec = Some ''opus'',
                 fmt_abr = Some 128, fmt_tbr = Some 128\<rparr>"

definition fmt_second :: fmt where
  "fmt_second = \<lparr>fmt_url = None, fmt_src = Some ''https://cdn/b'', fmt_acodec = Some ''mp4a'',
                  fmt_abr = Some 128, fmt_tbr = Some 128\<rparr>"

definition fmt_low :: fmt where
  "fmt_low = \<lparr>fmt_url = Some ''https://cdn/c'', fmt_src = None, fmt_acodec = Some ''opus'',
               fmt_abr = Some 64, fmt_tbr = Some 500\<rparr>"

definition fmt_video_only :: fmt where
  "fmt_video_only = \<lparr>fmt_url = Some ''https://cdn/v'', fmt_src = None, fmt_acodec = Some ''none'',
                      fmt_abr = None, fmt_tbr = Some 2500\<rparr>"

definition fmt_plain :: fmt where
  "fmt_plain = \<lparr>fmt_url = Some ''https://cdn/x'', fmt_src = None, fmt_acodec = Some ''mp4a'',
                 fmt_abr = None, fmt_tbr = None\<rparr>"

definition fmt_no_url :: fmt where
  "fmt_no_url = \<lparr>fmt_url = None, fmt_src = Some [], fmt_acodec = Some ''opus'',
                  fmt_abr = Some 320, fmt_tbr = Some 320\<rparr>"

definition info_of :: "fmt list \<Rightarrow> info" where
  "info_of fs = \<lparr>info_url = None, info_formats = fs, info_title = Some ''Song A'',
                  info_webpage_url = Some ''https://video/a'', info_thumbnail = None,
                  info_thumbnails = []\<rparr>"

definition track_a :: track where
  "track_a = \<lparr>title = Some ''A'', webpage_url = None, stream_url = Some ''https://cdn/a'',
               duration = Some 200, thumbnail = None, query = None\<rparr>"

definition track_b :: track where
  "track_b = \<lparr>title = Some ''B'', webpage_url = None, stream_url = Some ''https://cdn/b'',
               duration = Some 180, thumbnail = None, query = None\<rparr>"

definition pending_track :: "string \<Rightarrow> track" where
  "pending_track q = \<lparr>title = Some q, webpage_url = None, stream_url = None,
                       duration = None, thumbnail = None, query = Some q\<rparr>"

text \<open>
  Collaborators for which every extraction fails and every stream starts; the argument
  says whether a text channel for notices exists.
\<close>

definition failing_env :: "bool \<Rightarrow> env" where
  "failing_env chan =
     \<lparr>videos_search = (\<lambda>q. None), extract_info = (\<lambda>target. None),
      extract_info_web = (\<lambda>target. None), can_start = (\<lambda>url. True),
      notice_channel = chan, send_ok = (\<lambda>m. True), clock = 1000, author_in_voice = True,
      connect_ok = True\<rparr>"

text \<open>The same collaborators with a text channel on which every send raises.\<close>

definition send_failing_env :: env where
  "send_failing_env = (failing_env True)\<lparr>send_ok := (\<lambda>m. False)\<rparr>"

text \<open>Collaborators for which the search of any query finds a video with one audio stream.\<close>

definition finding_env :: env where
  "finding_env =
     \<lparr>videos_search = (\<lambda>q. Some ''https://video/a''),
      extract_info = (\<lambda>target. Some (Video (info_of [fmt_first]))),
      extract_info_web = (\<lambda>target. None), can_start = (\<lambda>url. True),
      notice_channel = True, send_ok = (\<lambda>m. True), clock = 1000, author_in_voice = True,
      connect_ok = True\<rparr>"

text \<open>A player that plays \<open>t\<close> with \<open>q\<close> queued behind it, in repeat mode \<open>rep\<close>.\<close>

definition playing :: "track \<Rightarrow> track list \<Rightarrow> string \<Rightarrow> world" where
  "playing t q rep =
     get_player\<lparr>voice_client := Some Playing, queue := q, now := Some t, repeat := rep,
                start_time := Some 900\<rparr>"

text \<open>A connected, silent player with \<open>q\<close> queued.\<close>

definition waiting :: "track list \<Rightarrow> world" where
  "waiting q = get_player\<lparr>voice_client := Some Silent, queue := q\<rparr>"

text \<open>A player that never connected to voice, with \<open>q\<close> queued.\<close>

definition unconnected :: "track list \<Rightarrow> world" where
  "unconnected q = get_player\<lparr>queue := q\<rparr>"

definition sample_item :: spotify_track where
  "sample_item = \<lparr>sp_name = Some ''Song'', sp_artists = [Some ''X'', None, Some ''Y''],
                   sp_url = Some ''https://open.spotify.com/track/1'',
                   sp_duration_ms = Some 215999\<rparr>"

text \<open>A playlist client whose first page holds 100 tracks and whose second fetch raises.\<close>

definition second_page_fails :: spotify where
  "second_page_fails =
     \<lparr>playlist_meta = Some (Some 150, Some ''Mix''),
      playlist_items = (\<lambda>limit offset.
         if offset = 0 then Some (replicate 100 (Some sample_item)) else None)\<rparr>"

section \<open>Stream selection picks the first best candidate\<close>

lemma last_filter_self: "xs \<noteq> [] \<Longrightarrow> P (last xs) \<Longrightarrow> last (filter P xs) = last xs"
  by (induction xs rule: rev_induct) auto

lemma sorted_last_max:
  assumes "sorted (map k zs)" "x \<in> set zs"
  shows "k x \<le> k (last zs)"
  using assms
  by (induction zs) (auto split: if_splits)

text \<open>
  The head of the descending stable sort splits the list: strictly smaller keys before it,
  no larger key after it.
\<close>

lemma hd_sorted_reverse:
  assumes "xs \<noteq> []"
  shows "\<exists>pre post. xs = pre @ hd (sorted_reverse k xs) # post
           \<and> (\<forall>c\<in>set pre. k c < k (hd (sorted_reverse k xs)))
           \<and> (\<forall>c\<in>set post. k c \<le> k (hd (sorted_reverse k xs)))"
proof -
  define zs where "zs = sort_key k (rev xs)"
  define best where "best = last zs"
  have zs_ne: "zs \<noteq> []"
    using assms by (metis zs_def set_sort set_rev set_empty)
  have hd_best: "hd (sorted_reverse k xs) = best"
    using zs_ne by (simp add: sorted_reverse_def zs_def best_def hd_rev)
  have srt: "sorted (map k zs)"
    by (simp add: zs_def)
  have set_zs: "set zs = set xs"
    by (simp add: zs_def)
  have max: "k c \<le> k best" if "c \<in> set xs" for c
    using sorted_last_max [OF srt, of c] that set_zs by (simp add: best_def)
  have "filter (\<lambda>y. k y = k best) zs = rev (filter (\<lambda>y. k y = k best) xs)"
    by (simp add: zs_def sort_key_stable rev_filter)
  moreover have "last (filter (\<lambda>y. k y = k best) zs) = best"
    using last_filter_self [of zs "\<lambda>y. k y = k best"] zs_ne by (simp add: best_def)
  moreover have "filter (\<lambda>y. k y = k best) zs \<noteq> []"
    using zs_ne by (metis (mono_tags, lifting) best_def filter_empty_conv last_in_set)
  ultimately have "hd (filter (\<lambda>y. k y = k best) xs) = best"
    "filter (\<lambda>y. k y = k best) xs \<noteq> []"
    by (simp_all add: last_rev)
  then obtain rest where "filter (\<lambda>y. k y = k best) xs = best # rest"
    by (cases "filter (\<lambda>y. k y = k best) xs") auto
  then obtain pre post where split: "xs = pre @ best # post" "\<forall>u\<in>set pre. k u \<noteq> k best"
    unfolding filter_eq_Cons_iff by blast
  have "\<forall>c\<in>set pre. k c < k best"
    using split max by (auto simp: less_le)
  moreover have "\<forall>c\<in>set post. k c \<le> k best"
    using split max by auto
  ultimately show ?thesis
    unfolding hd_best using split(1) by blast
qed

lemma collect_candidates_filter:
  "collect_candidates fs cs = cs @ filter (\<lambda>f. truthy (py_or (fmt_url f) (fmt_src f))) fs"
  by (induction fs arbitrary: cs) (simp_all add: Let_def)

lemma score_less_iff:
  "score a < score b \<longleftrightarrow>
     or_zero (fmt_abr a) < or_zero (fmt_abr b)
     \<or> (or_zero (fmt_abr a) = or_zero (fmt_abr b) \<and> or_zero (fmt_tbr a) < or_zero (fmt_tbr b))"
  by (auto simp: score_def less_prod_def)

lemma score_le_iff:
  "score a \<le> score b \<longleftrightarrow>
     or_zero (fmt_abr a) < or_zero (fmt_abr b)
     \<or> (or_zero (fmt_abr a) = or_zero (fmt_abr b) \<and> or_zero (fmt_tbr a) \<le> or_zero (fmt_tbr b))"
  by (auto simp: score_def less_eq_prod_def)

text \<open>
  C6. When the candidate list is not empty, the selected URL is that of a candidate
  \<open>best\<close> of the list such that every candidate before it has a strictly smaller score and
  no candidate after it has a larger one, the score being the audio bitrate, then the total
  bitrate, a missing bitrate counting as 0: the first-seen maximal candidate. When the
  candidate list is empty and there is no top-level URL, nothing is selected.
\<close>

theorem best_is_first_maximal:
  "(collect_candidates (info_formats i) [] \<noteq> [] \<longrightarrow>
      (\<exists>pre best post.
         collect_candidates (info_formats i) [] = pre @ best # post
         \<and> (\<forall>c\<in>set pre.
               or_zero (fmt_abr c) < or_zero (fmt_abr best)
               \<or> (or_zero (fmt_abr c) = or_zero (fmt_abr best)
                   \<and> or_zero (fmt_tbr c) < or_zero (fmt_tbr best)))
         \<and> (\<forall>c\<in>set post.
               or_zero (fmt_abr c) < or_zero (fmt_abr best)
               \<or> (or_zero (fmt_abr c) = or_zero (fmt_abr best)
                   \<and> or_zero (fmt_tbr c) \<le> or_zero (fmt_tbr best)))
         \<and> select_best_audio_url i = py_or (fmt_url best) (fmt_src best)))
   \<and> (collect_candidates (info_formats i) [] = [] \<and> \<not> truthy (info_url i) \<longrightarrow>
        select_best_audio_url i = None)"
proof (intro conjI impI)
  assume ne: "collect_candidates (info_formats i) [] \<noteq> []"
  define cs where "cs = collect_candidates (info_formats i) []"
  define best where "best = hd (sorted_reverse score cs)"
  have fs: "info_formats i \<noteq> []"
    using ne by auto
  have sel: "select_best_audio_url i = py_or (fmt_url best) (fmt_src best)"
    using ne fs by (simp add: select_best_audio_url_def Let_def best_def cs_def)
  obtain pre post where "cs = pre @ best # post"
    "\<forall>c\<in>set pre. score c < score best" "\<forall>c\<in>set post. score c \<le> score best"
    using hd_sorted_reverse [of cs score] ne unfolding cs_def best_def by blast
  then show "\<exists>pre best post.
         collect_candidates (info_formats i) [] = pre @ best # post
         \<and> (\<forall>c\<in>set pre.
               or_zero (fmt_abr c) < or_zero (fmt_abr best)
               \<or> (or_zero (fmt_abr c) = or_zero (fmt_abr best)
                   \<and> or_zero (fmt_tbr c) < or_zero (fmt_tbr best)))
         \<and> (\<forall>c\<in>set post.
               or_zero (fmt_abr c) < or_zero (fmt_abr best)
               \<or> (or_zero (fmt_abr c) = or_zero (fmt_abr best)
                   \<and> or_zero (fmt_tbr c) \<le> or_zero (fmt_tbr best)))
         \<and> select_best_audio_url i = py_or (fmt_url best) (fmt_src best)"
    using sel unfolding score_less_iff score_le_iff cs_def [symmetric] by blast
next
  assume "collect_candidates (info_formats i) [] = [] \<and> \<not> truthy (info_url i)"
  then show "select_best_audio_url i = None"
    by (simp add: select_best_audio_url_def)
qed

theorem best_is_first_maximal_witness:
  "collect_candidates (info_formats (info_of [fmt_low, fmt_first, fmt_second])) [] \<noteq> []
   \<and> select_best_audio_url (info_of [fmt_low, fmt_first, fmt_second]) = fmt_url fmt_first
   \<and> collect_candidates (info_formats (info_of [fmt_no_url])) [] = []
   \<and> \<not> truthy (info_url (info_of [fmt_no_url]))
   \<and> select_best_audio_url (info_of [fmt_no_url]) = None"
proof -
  have ne: "collect_candidates (info_formats (info_of [fmt_low, fmt_first, fmt_second])) [] \<noteq> []"
    by code_simp
  have first: "select_best_audio_url (info_of [fmt_low, fmt_first, fmt_second]) = fmt_url fmt_first"
    by code_simp
  have none: "collect_candidates (info_formats (info_of [fmt_no_url])) [] = []
              \<and> \<not> truthy (info_url (info_of [fmt_no_url]))"
    by code_simp
  from best_is_first_maximal [of "info_of [fmt_no_url]"] none
  have "select_best_audio_url (info_of [fmt_no_url]) = None"
    by blast
  moreover have "\<exists>best::fmt. select_best_audio_url (info_of [fmt_low, fmt_first, fmt_second])
                 = py_or (fmt_url best) (fmt_src best)"
    using best_is_first_maximal [of "info_of [fmt_low, fmt_first, fmt_second]"] ne by blast
  ultimately show ?thesis
    using ne first none by blast
qed

text \<open>
  C10. The candidate list is the list of the formats that carry a URL (\<^verbatim>\<open>url\<close> or
  \<^verbatim>\<open>src\<close>), in their order: the audio codec plays no part in it. A format whose codec is
  \<^verbatim>\<open>"none"\<close> is therefore a candidate, and it is selected when its score is the best, as
  for the two sample formats, where the stream without audio wins on the total bitrate.
\<close>

theorem video_only_formats_admitted:
  "collect_candidates fs [] = filter (\<lambda>f. truthy (py_or (fmt_url f) (fmt_src f))) fs
   \<and> fmt_acodec fmt_video_only = Some ''none''
   \<and> collect_candidates [fmt_plain, fmt_video_only] [] = [fmt_plain, fmt_video_only]
   \<and> select_best_audio_url (info_of [fmt_plain, fmt_video_only]) = fmt_url fmt_video_only"
proof -
  have "collect_candidates fs [] = filter (\<lambda>f. truthy (py_or (fmt_url f) (fmt_src f))) fs"
    by (simp add: collect_candidates_filter)
  moreover have "fmt_acodec fmt_video_only = Some ''none''"
    by (simp add: fmt_video_only_def)
  moreover have "collect_candidates [fmt_plain, fmt_video_only] [] = [fmt_plain, fmt_video_only]"
    by code_simp
  moreover have
    "select_best_audio_url (info_of [fmt_plain, fmt_video_only]) = fmt_url fmt_video_only"
    by code_simp
  ultimately show ?thesis by blast
qed

section \<open>Repeat policy on completion\<close>

text \<open>
  C3. When the track that plays completes, the callback puts it back by the repeat mode
  before anything else: at the front of the queue for \<^verbatim>\<open>single\<close>, at the back for \<^verbatim>\<open>all\<close>, not
  at all for \<^verbatim>\<open>off\<close>; the track put back is the one that played, unchanged. The slot
  \<^verbatim>\<open>now\<close> is empty at that point, and only then does the callback advance.
\<close>

theorem completion_reinserts_by_repeat_mode:
  assumes "now w = Some t"
  shows "(repeat w = ''single'' \<longrightarrow> queue (after_play_reinsert w) = t # queue w)
       \<and> (repeat w = ''all'' \<longrightarrow> queue (after_play_reinsert w) = queue w @ [t])
       \<and> (repeat w = ''off'' \<longrightarrow> queue (after_play_reinsert w) = queue w)
       \<and> now (after_play_reinsert w) = None
       \<and> after_play e n w = play_next e n (after_play_reinsert w)"
  using assms by (simp add: after_play_reinsert_def after_play_def Let_def)

theorem completion_reinserts_by_repeat_mode_witness:
  "now (playing track_a [track_b] ''all'') = Some track_a
   \<and> queue (after_play_reinsert (playing track_a [track_b] ''all'')) = [track_b, track_a]
   \<and> now (after_play_reinsert (playing track_a [track_b] ''all'')) = None
   \<and> queue (after_play_reinsert (playing track_a [track_b] ''single'')) = [track_a, track_b]
   \<and> queue (after_play_reinsert (playing track_a [track_b] ''off'')) = [track_b]"
proof -
  have h: "now (playing track_a [track_b] rep) = Some track_a" for rep
    by (simp add: playing_def)
  have r: "repeat (playing track_a [track_b] rep) = rep"
    "queue (playing track_a [track_b] rep) = [track_b]" for rep
    by (simp_all add: playing_def)
  show ?thesis
    using completion_reinserts_by_repeat_mode [OF h [of "''all''"]]
      completion_reinserts_by_repeat_mode [OF h [of "''single''"]]
      completion_reinserts_by_repeat_mode [OF h [of "''off''"]] h r
    by simp
qed

section \<open>Lazy resolution happens once\<close>

lemma fill_track_resolved: "fill_track t i = Some t' \<Longrightarrow> truthy (stream_url t')"
  by (auto simp: fill_track_def Let_def split: if_splits)

text \<open>
  C7. Resolving a track that carries a stream URL returns it with every field unchanged.
  A resolution that succeeds yields a track that carries a stream URL, so resolving the
  result again, whatever the collaborators answer then, is the identity; a resolution that
  fails returns nothing and changes nothing.
\<close>

theorem resolved_track_is_fixed:
  "(truthy (stream_url t) \<longrightarrow> resolve_lazy_track e t = Some t)
   \<and> (resolve_lazy_track e t = Some t' \<longrightarrow>
        truthy (stream_url t') \<and> resolve_lazy_track e' t' = Some t')"
proof (intro conjI impI)
  assume "truthy (stream_url t)"
  then show "resolve_lazy_track e t = Some t"
    by (simp add: resolve_lazy_track_def)
next
  assume r: "resolve_lazy_track e t = Some t'"
  have "truthy (stream_url t')"
  proof (cases "truthy (stream_url t)")
    case True
    with r show ?thesis by (simp add: resolve_lazy_track_def)
  next
    case False
    with r show ?thesis
      by (auto simp: resolve_lazy_track_def Let_def dest: fill_track_resolved
               split: option.splits if_splits extraction.splits list.splits)
  qed
  then show "truthy (stream_url t')" "resolve_lazy_track e' t' = Some t'"
    by (simp_all add: resolve_lazy_track_def)
qed

theorem resolved_track_is_fixed_witness:
  "truthy (stream_url track_a)
   \<and> resolve_lazy_track finding_env track_a = Some track_a
   \<and> resolve_lazy_track finding_env (pending_track ''Song A'')
       = Some ((pending_track ''Song A'')
                 \<lparr>webpage_url := Some ''https://video/a'', stream_url := Some ''https://cdn/a''\<rparr>)
   \<and> resolve_lazy_track (failing_env True)
        ((pending_track ''Song A'')
           \<lparr>webpage_url := Some ''https://video/a'', stream_url := Some ''https://cdn/a''\<rparr>)
       = Some ((pending_track ''Song A'')
                 \<lparr>webpage_url := Some ''https://video/a'', stream_url := Some ''https://cdn/a''\<rparr>)"
proof -
  have a: "truthy (stream_url track_a)"
    by code_simp
  have b: "resolve_lazy_track finding_env (pending_track ''Song A'')
       = Some ((pending_track ''Song A'')
                 \<lparr>webpage_url := Some ''https://video/a'', stream_url := Some ''https://cdn/a''\<rparr>)"
    by code_simp
  show ?thesis
    using a b resolved_track_is_fixed [of track_a finding_env]
      resolved_track_is_fixed [of "pending_track ''Song A''" finding_env _ "failing_env True"]
    by blast
qed

section \<open>Rounding to a double\<close>

text \<open>
  What is used of \<open>double\<close> below: it keeps the sign, and it moves a positive number by at
  most half a unit in the last place, that is by at most the fraction \<open>1 / 2 ^ 53\<close> of it.
\<close>

lemma int_bitlen_bounds:
  assumes "0 < (p::int)"
  shows "power_int 2 (bitlen p - 1) \<le> (of_int p :: rat)" "(of_int p :: rat) < power_int 2 (bitlen p)"
proof -
  from bitlen_bounds [OF assms] have a: "2 ^ nat (bitlen p - 1) \<le> p" and b: "p < 2 ^ nat (bitlen p)"
    by auto
  have ge1: "1 \<le> bitlen p" using assms by (auto simp: bitlen_alt_def)
  have "(of_int (2 ^ nat (bitlen p - 1)) :: rat) \<le> of_int p" using a by (simp only: of_int_le_iff)
  then show "power_int 2 (bitlen p - 1) \<le> (of_int p :: rat)"
    using ge1 by (simp add: power_int_def)
  have "(of_int p :: rat) < of_int (2 ^ nat (bitlen p))" using b by (simp only: of_int_less_iff)
  then show "(of_int p :: rat) < power_int 2 (bitlen p)"
    using ge1 by (simp add: power_int_def)
qed

lemma ilog2_bounds:
  assumes "0 < x"
  shows "power_int 2 (ilog2 x) \<le> x" "x < power_int 2 (ilog2 x + 1)"
proof -
  obtain p q where pq: "quotient_of x = (p, q)" by (cases "quotient_of x")
  have q: "0 < q" using quotient_of_denom_pos [OF pq] .
  have x: "x = of_int p / of_int q" using quotient_of_div [OF pq] .
  have p: "0 < p" using assms q unfolding x by (simp add: zero_less_divide_iff)
  define k where "k = bitlen p - bitlen q"
  note bp = int_bitlen_bounds [OF p] and bq = int_bitlen_bounds [OF q]
  have qpos: "(0::rat) < of_int q" using q by simp
  have up: "x < power_int 2 (k + 1)"
  proof -
    have "x < power_int 2 (bitlen p) / of_int q"
      unfolding x using bp(2) qpos by (simp add: divide_strict_right_mono)
    also have "\<dots> \<le> power_int 2 (bitlen p) / power_int 2 (bitlen q - 1)"
    proof (rule divide_left_mono [OF bq(1)])
      show "(0::rat) \<le> power_int 2 (bitlen p)" by simp
      show "(0::rat) < of_int q * power_int 2 (bitlen q - 1)"
        using qpos by (intro mult_pos_pos zero_less_power_int) auto
    qed
    also have "\<dots> = power_int 2 (bitlen p - (bitlen q - 1))"
      by (rule power_int_diff [symmetric]) simp
    also have "bitlen p - (bitlen q - 1) = k + 1"
      by (simp add: k_def)
    finally show ?thesis .
  qed
  have lo: "power_int 2 (k - 1) \<le> x"
  proof -
    have "k - 1 = bitlen p - 1 - bitlen q"
      by (simp add: k_def)
    then have "(power_int 2 (k - 1) :: rat) = power_int 2 (bitlen p - 1 - bitlen q)"
      by (rule arg_cong)
    also have "\<dots> = power_int 2 (bitlen p - 1) / power_int 2 (bitlen q)"
      by (rule power_int_diff) simp
    also have "\<dots> \<le> of_int p / power_int 2 (bitlen q)"
      using bp(1) by (simp add: divide_right_mono)
    also have "\<dots> \<le> of_int p / of_int q"
    proof (rule divide_left_mono)
      show "(of_int q :: rat) \<le> power_int 2 (bitlen q)" using bq(2) by simp
      show "(0::rat) \<le> of_int p" using p by simp
      show "(0::rat) < power_int 2 (bitlen q) * of_int q"
        using qpos by (intro mult_pos_pos zero_less_power_int) auto
    qed
    finally show ?thesis unfolding x .
  qed
  have il: "ilog2 x = (if power_int 2 k \<le> x then k else k - 1)"
    by (simp add: ilog2_def pq k_def Let_def)
  show "power_int 2 (ilog2 x) \<le> x" using lo by (simp add: il)
  show "x < power_int 2 (ilog2 x + 1)" using up by (auto simp: il)
qed

lemma round_half_even_bound: "\<bar>of_int (round_half_even y) - y\<bar> \<le> 1 / 2"
proof -
  have "of_int \<lfloor>y\<rfloor> \<le> y" "y < of_int \<lfloor>y\<rfloor> + 1" by linarith+
  then show ?thesis
    by (auto simp: round_half_even_def Let_def abs_le_iff)
qed

lemma round_half_even_nonneg: "0 \<le> y \<Longrightarrow> 0 \<le> round_half_even y"
  by (auto simp: round_half_even_def Let_def)

lemma double_nonneg: "0 \<le> x \<Longrightarrow> 0 \<le> double x"
  by (auto simp: double_def Let_def intro!: mult_nonneg_nonneg round_half_even_nonneg divide_nonneg_pos)

lemma double_nonpos:
  assumes "x \<le> 0"
  shows "double x \<le> 0"
proof (cases "x = 0")
  case True
  then show ?thesis by (simp add: double_def)
next
  case False
  define u :: rat where "u = power_int 2 (ilog2 \<bar>x\<bar> - 52)"
  define m where "m = round_half_even (\<bar>x\<bar> / u)"
  have upos: "0 < u" by (simp add: u_def)
  have "0 \<le> m" unfolding m_def using upos by (intro round_half_even_nonneg) simp
  then have "0 \<le> of_int m * u" using upos by simp
  moreover have "double x = - (of_int m * u)"
    using False assms by (simp add: double_def Let_def u_def m_def sgn_if)
  ultimately show ?thesis by simp
qed

lemma double_error:
  assumes "0 < x"
  shows "\<bar>double x - x\<bar> \<le> x / 2 ^ 53"
proof -
  define e where "e = ilog2 x - 52"
  define u :: rat where "u = power_int 2 e"
  define m where "m = round_half_even (x / u)"
  have upos: "0 < u" by (simp add: u_def)
  have d: "double x = of_int m * u"
    using assms by (simp add: double_def Let_def e_def u_def m_def)
  have "\<bar>of_int m - x / u\<bar> \<le> 1 / 2" unfolding m_def by (rule round_half_even_bound)
  then have "\<bar>of_int m - x / u\<bar> * u \<le> 1 / 2 * u" using upos by (simp add: mult_right_mono)
  moreover have "\<bar>of_int m - x / u\<bar> * u = \<bar>of_int m * u - x\<bar>"
  proof -
    have "(of_int m - x / u) * u = of_int m * u - x" using upos by (simp add: field_simps)
    moreover have "\<bar>of_int m - x / u\<bar> * u = \<bar>(of_int m - x / u) * u\<bar>"
      using upos by (simp add: abs_mult)
    ultimately show ?thesis by simp
  qed
  ultimately have err: "\<bar>double x - x\<bar> \<le> u / 2" unfolding d by simp
  have "u = power_int 2 (ilog2 x) / 2 ^ 52"
    unfolding u_def e_def by (simp add: power_int_diff)
  also have "\<dots> \<le> x / 2 ^ 52" using ilog2_bounds(1) [OF assms] by (simp add: divide_right_mono)
  finally have "u / 2 \<le> x / 2 ^ 53" by simp
  with err show ?thesis by linarith
qed

section \<open>Volume stays within bounds\<close>

text \<open>
  The step \<^verbatim>\<open>0.05\<close> as a double lies within a thousandth of 5/100, and so does every rounded
  sum or difference of its exact value. One press therefore moves the volume by at least
  1/21, unless the clamp stops it.
\<close>

lemma double_lower: "0 < x \<Longrightarrow> 999 * x \<le> 1000 * double x"
proof -
  assume x: "0 < x"
  have "x / 2 ^ 53 \<le> x / 1000" using x by (intro divide_left_mono) simp_all
  with double_error [OF x] have "x - x / 1000 \<le> double x" by linarith
  then show ?thesis by (simp add: field_simps)
qed

lemma double_upper: "0 < x \<Longrightarrow> 1000 * double x \<le> 1001 * x"
proof -
  assume x: "0 < x"
  have "x / 2 ^ 53 \<le> x / 1000" using x by (intro divide_left_mono) simp_all
  with double_error [OF x] have "double x \<le> x + x / 1000" by linarith
  then show ?thesis by (simp add: field_simps)
qed

lemma step_bounds: "999 \<le> 20000 * double (5 / 100)" "20000 * double (5 / 100) \<le> 1001"
  using double_lower [of "5 / 100"] double_upper [of "5 / 100"] by simp_all

lemma up_progress:
  assumes "0 \<le> v" "v \<le> 1"
  shows "min 1 (v + 1 / 21) \<le> min 1 (float_add v (double (5 / 100)))"
    and "0 \<le> min 1 (float_add v (double (5 / 100)))"
proof -
  define c where "c = double (5 / 100)"
  have c: "999 \<le> 20000 * c" "20000 * c \<le> 1001" unfolding c_def by (rule step_bounds)+
  have pos: "0 < v + c" using assms c by linarith
  from double_lower [OF pos] have "999 * v + 999 * c \<le> 1000 * double (v + c)"
    by (simp add: algebra_simps)
  then have "21 * v + 1 \<le> 21 * double (v + c)" using assms c by linarith
  then have "v + 1 / 21 \<le> double (v + c)" by (simp add: field_simps)
  then show "min 1 (v + 1 / 21) \<le> min 1 (float_add v (double (5 / 100)))"
    unfolding float_add_def c_def [symmetric] by (simp add: min_def)
  have "0 \<le> double (v + c)" using pos by (intro double_nonneg) simp
  then show "0 \<le> min 1 (float_add v (double (5 / 100)))"
    unfolding float_add_def c_def [symmetric] by simp
qed

lemma down_progress:
  assumes "0 \<le> v" "v \<le> 1"
  shows "max 0 (float_sub v (double (5 / 100))) \<le> max 0 (v - 1 / 21)"
    and "max 0 (float_sub v (double (5 / 100))) \<le> 1"
proof -
  define c where "c = double (5 / 100)"
  have c: "999 \<le> 20000 * c" "20000 * c \<le> 1001" unfolding c_def by (rule step_bounds)+
  have le: "double (v - c) \<le> max 0 (v - 1 / 21)"
  proof (cases "v - c \<le> 0")
    case True
    from double_nonpos [OF this] show ?thesis by simp
  next
    case False
    then have pos: "0 < v - c" by simp
    from double_upper [OF pos] have "1000 * double (v - c) \<le> 1001 * v - 1001 * c"
      by (simp add: algebra_simps)
    then have "21 * double (v - c) \<le> 21 * v - 1" using assms c by linarith
    then have "double (v - c) \<le> v - 1 / 21" by (simp add: field_simps)
    then show ?thesis by simp
  qed
  then show "max 0 (float_sub v (double (5 / 100))) \<le> max 0 (v - 1 / 21)"
    unfolding float_sub_def c_def [symmetric] by simp
  have "max 0 (v - 1 / 21) \<le> 1" using assms by simp
  with le show "max 0 (float_sub v (double (5 / 100))) \<le> 1"
    unfolding float_sub_def c_def [symmetric] by simp
qed

lemma min_shift:
  "(0::rat) \<le> a \<Longrightarrow> min 1 (v + d) \<le> v1 \<Longrightarrow> min 1 (v + (a + d)) \<le> min 1 (v1 + a)"
  by (auto simp: min_def split: if_splits)

lemma max_shift:
  "(0::rat) \<le> a \<Longrightarrow> v1 \<le> max 0 (v - d) \<Longrightarrow> max 0 (v1 - a) \<le> max 0 (v - (a + d))"
  by (auto simp: max_def split: if_splits)

lemma volume_press_bounds:
  "0 \<le> volume p \<Longrightarrow> volume p \<le> 1 \<Longrightarrow>
   \<exists>p'. press bs (Some p) = Some p' \<and> 0 \<le> volume p' \<and> volume p' \<le> 1"
proof (induction bs arbitrary: p)
  case Nil
  then show ?case by simp
next
  case (Cons b bs)
  show ?case
  proof (cases b)
    case VolUp
    have "0 \<le> volume (p\<lparr>volume := min 1 (float_add (volume p) (double (5 / 100)))\<rparr>)"
      "volume (p\<lparr>volume := min 1 (float_add (volume p) (double (5 / 100)))\<rparr>) \<le> 1"
      using up_progress(2) [OF Cons.prems] by simp_all
    from Cons.IH [OF this] show ?thesis
      using VolUp by (simp add: vol_up_def)
  next
    case VolDown
    have "0 \<le> volume (p\<lparr>volume := max 0 (float_sub (volume p) (double (5 / 100)))\<rparr>)"
      "volume (p\<lparr>volume := max 0 (float_sub (volume p) (double (5 / 100)))\<rparr>) \<le> 1"
      using down_progress(2) [OF Cons.prems] by simp_all
    from Cons.IH [OF this] show ?thesis
      using VolDown by (simp add: vol_down_def)
  qed
qed

lemma press_ups:
  "0 \<le> volume p \<Longrightarrow> volume p \<le> 1 \<Longrightarrow>
   \<exists>p'. press (replicate n VolUp) (Some p) = Some p'
        \<and> min 1 (volume p + of_nat n / 21) \<le> volume p' \<and> volume p' \<le> 1"
proof (induction n arbitrary: p)
  case 0
  then show ?case by simp
next
  case (Suc n)
  define p1 where "p1 = p\<lparr>volume := min 1 (float_add (volume p) (double (5 / 100)))\<rparr>"
  have v1: "min 1 (volume p + 1 / 21) \<le> volume p1" "0 \<le> volume p1" "volume p1 \<le> 1"
    using up_progress [OF Suc.prems] by (simp_all add: p1_def)
  from Suc.IH [OF v1(2,3)] obtain p' where
    p': "press (replicate n VolUp) (Some p1) = Some p'"
    "min 1 (volume p1 + of_nat n / 21) \<le> volume p'" "volume p' \<le> 1"
    by auto
  have "of_nat (Suc n) / 21 = of_nat n / 21 + (1 / 21 :: rat)"
    by (simp add: field_simps)
  moreover have "min 1 (volume p + (of_nat n / 21 + 1 / 21)) \<le> min 1 (volume p1 + of_nat n / 21)"
    by (rule min_shift [OF _ v1(1)]) simp
  ultimately have
    "min 1 (volume p + of_nat (Suc n) / 21) \<le> min 1 (volume p1 + of_nat n / 21)"
    by (simp only:)
  with p' show ?case
    by (auto simp: vol_up_def p1_def)
qed

lemma press_downs:
  "0 \<le> volume p \<Longrightarrow> volume p \<le> 1 \<Longrightarrow>
   \<exists>p'. press (replicate n VolDown) (Some p) = Some p'
        \<and> volume p' \<le> max 0 (volume p - of_nat n / 21) \<and> 0 \<le> volume p'"
proof (induction n arbitrary: p)
  case 0
  then show ?case by simp
next
  case (Suc n)
  define p1 where "p1 = p\<lparr>volume := max 0 (float_sub (volume p) (double (5 / 100)))\<rparr>"
  have v1: "volume p1 \<le> max 0 (volume p - 1 / 21)" "0 \<le> volume p1" "volume p1 \<le> 1"
    using down_progress [OF Suc.prems] by (simp_all add: p1_def)
  from Suc.IH [OF v1(2,3)] obtain p' where
    p': "press (replicate n VolDown) (Some p1) = Some p'"
    "volume p' \<le> max 0 (volume p1 - of_nat n / 21)" "0 \<le> volume p'"
    by auto
  have "of_nat (Suc n) / 21 = of_nat n / 21 + (1 / 21 :: rat)"
    by (simp add: field_simps)
  moreover have "max 0 (volume p1 - of_nat n / 21) \<le> max 0 (volume p - (of_nat n / 21 + 1 / 21))"
    by (rule max_shift [OF _ v1(1)]) simp
  ultimately have
    "max 0 (volume p1 - of_nat n / 21) \<le> max 0 (volume p - of_nat (Suc n) / 21)"
    by (simp only:)
  with p' show ?case
    by (auto simp: vol_down_def p1_def)
qed

lemma press_append: "press (bs @ cs) player = press cs (press bs player)"
  by (induction bs player rule: press.induct) simp_all

text \<open>The first press of volume down on a new player gives \<^verbatim>\<open>0.09999999999999999\<close>.\<close>

lemma first_press_down:
  "max 0 (float_sub (double (15 / 100)) (double (5 / 100))) = 7205759403792793 / 2 ^ 56"
  by code_simp

text \<open>
  C9. Volume up sets the volume to \<open>min 1 (volume + 0.05)\<close> and volume down to
  \<open>max 0 (volume - 0.05)\<close>, the sum and the difference being those of doubles. A new player
  starts at \<^verbatim>\<open>0.15\<close>; after any run of presses its volume lies between 0 and 1, and from
  wherever such a run has led, 21 or more presses of volume up end at exactly 1 and 21 or
  more presses of volume down at exactly 0.
\<close>

theorem volume_stays_clamped:
  "fst (vol_up (Some p))
     = Some (p\<lparr>volume := min 1 (float_add (volume p) (double (5 / 100)))\<rparr>)
   \<and> fst (vol_down (Some p))
       = Some (p\<lparr>volume := max 0 (float_sub (volume p) (double (5 / 100)))\<rparr>)
   \<and> volume get_player = double (15 / 100)
   \<and> (\<exists>p'. press bs (Some get_player) = Some p' \<and> 0 \<le> volume p' \<and> volume p' \<le> 1)
   \<and> (21 \<le> n \<longrightarrow>
        (\<exists>p'. press (bs @ replicate n VolUp) (Some get_player) = Some p' \<and> volume p' = 1)
        \<and> (\<exists>p'. press (bs @ replicate n VolDown) (Some get_player) = Some p' \<and> volume p' = 0))"
proof -
  have "0 \<le> double (15 / 100)" by (intro double_nonneg) simp
  moreover have "double (15 / 100) \<le> 1" using double_upper [of "15 / 100"] by simp
  ultimately have start: "0 \<le> volume get_player" "volume get_player \<le> 1"
    by (simp_all add: get_player_def)
  obtain q where q: "press bs (Some get_player) = Some q" "0 \<le> volume q" "volume q \<le> 1"
    using volume_press_bounds [OF start] by blast
  have up: "\<exists>p'. press (bs @ replicate n VolUp) (Some get_player) = Some p' \<and> volume p' = 1"
    if "21 \<le> n"
  proof -
    obtain p' where p': "press (replicate n VolUp) (Some q) = Some p'"
      "min 1 (volume q + of_nat n / 21) \<le> volume p'" "volume p' \<le> 1"
      using press_ups [OF q(2,3)] by blast
    have "(21::rat) \<le> of_nat n" using that by (metis of_nat_le_iff of_nat_numeral)
    then have "1 \<le> volume q + of_nat n / 21" using q(2) by simp
    then have "volume p' = 1" using p'(2,3) by simp
    then show ?thesis using p'(1) q(1) by (simp add: press_append)
  qed
  have down: "\<exists>p'. press (bs @ replicate n VolDown) (Some get_player) = Some p' \<and> volume p' = 0"
    if "21 \<le> n"
  proof -
    obtain p' where p': "press (replicate n VolDown) (Some q) = Some p'"
      "volume p' \<le> max 0 (volume q - of_nat n / 21)" "0 \<le> volume p'"
      using press_downs [OF q(2,3)] by blast
    have "(21::rat) \<le> of_nat n" using that by (metis of_nat_le_iff of_nat_numeral)
    then have "volume q - of_nat n / 21 \<le> 0" using q(3) by simp
    then have "volume p' = 0" using p'(2,3) by simp
    then show ?thesis using p'(1) q(1) by (simp add: press_append)
  qed
  show ?thesis
    using q up down by (simp add: vol_up_def vol_down_def get_player_def)
qed

theorem volume_stays_clamped_witness:
  "(21::nat) \<le> 21
   \<and> (\<exists>p'. press ([VolDown, VolUp] @ replicate 21 VolUp) (Some get_player) = Some p'
           \<and> volume p' = 1)
   \<and> (\<exists>p'. press ([VolDown, VolUp] @ replicate 21 VolDown) (Some get_player) = Some p'
           \<and> volume p' = 0)
   \<and> (\<exists>p'. press [VolDown, VolUp] (Some get_player) = Some p'
           \<and> 0 \<le> volume p' \<and> volume p' \<le> 1)"
proof -
  have h: "(21::nat) \<le> 21" by simp
  from volume_stays_clamped [where bs = "[VolDown, VolUp]" and n = 21 and p = get_player] h
  show ?thesis by blast
qed

section \<open>Skip and stop go through the completion callback\<close>

text \<open>The advance starts the head of the queue when it resolves and its stream starts.\<close>

lemma play_next_starts:
  assumes "voice_client w = Some vc" "vc \<noteq> Playing" "queue w = nxt # rest"
    and "(if \<not> truthy (stream_url nxt) \<and> truthy (query nxt)
          then resolve_lazy_track e nxt else Some nxt) = Some t'"
    and "can_start e (stream_url t')"
  shows "play_next e (Suc n) w =
           (w\<lparr>voice_client := Some Playing, queue := rest, now := Some t',
               start_time := Some (clock e)\<rparr>, None)"
  using assms by (simp add: Let_def)

lemma skip_stops_client:
  assumes "voice_client w = Some Playing \<or> voice_client w = Some Paused"
  shows "skip w = (w\<lparr>voice_client := Some Silent\<rparr>, Skipped, True)"
  using assms by (auto simp: skip_def vc_stop_def)

lemma reinsert_after_skip:
  "after_play_reinsert (w\<lparr>voice_client := Some Silent\<rparr>) =
     w\<lparr>voice_client := Some Silent,
        queue := (case now w of None \<Rightarrow> queue w
                  | Some t \<Rightarrow> if repeat w = ''single'' then t # queue w
                              else if repeat w = ''all'' then queue w @ [t] else queue w),
        now := None, start_time := None\<rparr>"
  by (cases "now w") (simp_all add: after_play_reinsert_def Let_def)

text \<open>
  C1. Skip, in a player that plays or is paused, only stops the voice client: the command
  itself touches neither the queue nor \<^verbatim>\<open>now\<close>. The completion callback then runs as on a
  natural end: it puts the skipped track back by the repeat mode (front for \<^verbatim>\<open>single\<close>,
  back for \<^verbatim>\<open>all\<close>, not at all otherwise) and advances on the queue \<open>q'\<close> so obtained. When
  \<open>q'\<close> is empty the player ends silent with nothing playing. Otherwise the head of \<open>q'\<close>,
  when it resolves and its stream starts, is the track that plays, and the rest of
  \<open>q'\<close> is the queue. So in repeat mode \<^verbatim>\<open>single\<close> the skipped track plays again and the
  queue is as it was; in repeat mode \<^verbatim>\<open>all\<close> the next queued track plays and the skipped
  track is at the back of the queue; in any other repeat mode the next queued track plays
  and the skipped track is gone.
\<close>

theorem skip_applies_repeat_policy:
  assumes "voice_client w = Some Playing \<or> voice_client w = Some Paused"
  shows
    "skip w = (w\<lparr>voice_client := Some Silent\<rparr>, Skipped, True)
     \<and> (let q' = (case now w of None \<Rightarrow> queue w
                   | Some t \<Rightarrow> if repeat w = ''single'' then t # queue w
                               else if repeat w = ''all'' then queue w @ [t] else queue w)
        in (q' = [] \<longrightarrow>
              run_callback e (Suc n) (skip w) =
                (w\<lparr>voice_client := Some Silent, queue := [], now := None,
                    start_time := None\<rparr>, None))
         \<and> (\<forall>nxt rest t'.
               q' = nxt # rest
               \<and> (if \<not> truthy (stream_url nxt) \<and> truthy (query nxt)
                  then resolve_lazy_track e nxt else Some nxt) = Some t'
               \<and> can_start e (stream_url t')
               \<longrightarrow> run_callback e (Suc n) (skip w) =
                     (w\<lparr>voice_client := Some Playing, queue := rest, now := Some t',
                         start_time := Some (clock e)\<rparr>, None)))
     \<and> (\<forall>t. repeat w = ''single'' \<and> now w = Some t \<and> truthy (stream_url t)
             \<and> can_start e (stream_url t)
             \<longrightarrow> run_callback e (Suc n) (skip w) =
                   (w\<lparr>voice_client := Some Playing, start_time := Some (clock e)\<rparr>, None))
     \<and> (\<forall>t nxt rest. repeat w = ''all'' \<and> now w = Some t \<and> queue w = nxt # rest
             \<and> truthy (stream_url nxt) \<and> can_start e (stream_url nxt)
             \<longrightarrow> run_callback e (Suc n) (skip w) =
                   (w\<lparr>voice_client := Some Playing, queue := rest @ [t], now := Some nxt,
                       start_time := Some (clock e)\<rparr>, None))
     \<and> (\<forall>nxt rest. repeat w \<noteq> ''single'' \<and> repeat w \<noteq> ''all'' \<and> queue w = nxt # rest
             \<and> truthy (stream_url nxt) \<and> can_start e (stream_url nxt)
             \<longrightarrow> run_callback e (Suc n) (skip w) =
                   (w\<lparr>voice_client := Some Playing, queue := rest, now := Some nxt,
                       start_time := Some (clock e)\<rparr>, None))"
proof -
  define q' where "q' = (case now w of None \<Rightarrow> queue w
                   | Some t \<Rightarrow> if repeat w = ''single'' then t # queue w
                               else if repeat w = ''all'' then queue w @ [t] else queue w)"
  define w' where "w' = w\<lparr>voice_client := Some Silent, queue := q', now := None,
                           start_time := None\<rparr>"
  have sk: "skip w = (w\<lparr>voice_client := Some Silent\<rparr>, Skipped, True)"
    using assms by (rule skip_stops_client)
  have cb: "run_callback e (Suc n) (skip w) = play_next e (Suc n) w'"
    unfolding sk w'_def q'_def
    by (simp add: run_callback_def after_play_def reinsert_after_skip)
  have vc: "voice_client w' = Some Silent" and qw: "queue w' = q'"
    by (simp_all add: w'_def)
  have empty: "run_callback e (Suc n) (skip w) =
                (w\<lparr>voice_client := Some Silent, queue := [], now := None,
                    start_time := None\<rparr>, None)" if "q' = []"
    unfolding cb using that by (simp add: w'_def)
  have start: "run_callback e (Suc n) (skip w) =
                     (w\<lparr>voice_client := Some Playing, queue := rest, now := Some t',
                         start_time := Some (clock e)\<rparr>, None)"
    if "q' = nxt # rest"
      and "(if \<not> truthy (stream_url nxt) \<and> truthy (query nxt)
                  then resolve_lazy_track e nxt else Some nxt) = Some t'"
      and "can_start e (stream_url t')" for nxt rest t'
  proof -
    have "queue w' = nxt # rest" using that(1) qw by simp
    from play_next_starts [OF vc _ this that(2) that(3), of n]
    show ?thesis unfolding cb by (simp add: w'_def)
  qed
  have single: "run_callback e (Suc n) (skip w) =
                   (w\<lparr>voice_client := Some Playing, start_time := Some (clock e)\<rparr>, None)"
    if "repeat w = ''single''" "now w = Some t" "truthy (stream_url t)"
       "can_start e (stream_url t)" for t
  proof -
    have "q' = t # queue w" using that by (simp add: q'_def)
    from start [OF this _ that(4)] that(3)
    have "run_callback e (Suc n) (skip w) =
                     (w\<lparr>voice_client := Some Playing, queue := queue w, now := now w,
                         start_time := Some (clock e)\<rparr>, None)"
      by (simp add: that(2))
    then show ?thesis by simp
  qed
  have all: "run_callback e (Suc n) (skip w) =
                   (w\<lparr>voice_client := Some Playing, queue := rest @ [t], now := Some nxt,
                       start_time := Some (clock e)\<rparr>, None)"
    if "repeat w = ''all''" "now w = Some t" "queue w = nxt # rest" "truthy (stream_url nxt)"
       "can_start e (stream_url nxt)" for t nxt rest
  proof -
    have "q' = nxt # (rest @ [t])" using that by (simp add: q'_def)
    from start [OF this _ that(5)] that(4) show ?thesis by simp
  qed
  have off: "run_callback e (Suc n) (skip w) =
                   (w\<lparr>voice_client := Some Playing, queue := rest, now := Some nxt,
                       start_time := Some (clock e)\<rparr>, None)"
    if "repeat w \<noteq> ''single''" "repeat w \<noteq> ''all''" "queue w = nxt # rest"
       "truthy (stream_url nxt)" "can_start e (stream_url nxt)" for nxt rest
  proof -
    have "q' = nxt # rest" using that by (cases "now w") (simp_all add: q'_def)
    from start [OF this _ that(5)] that(4) show ?thesis by simp
  qed
  show ?thesis
    unfolding Let_def q'_def [symmetric]
    using sk empty start single all off by blast
qed

theorem skip_applies_repeat_policy_witness:
  "voice_client (playing track_a [track_b] ''single'') = Some Playing
   \<and> skip (playing track_a [track_b] ''single'')
       = ((playing track_a [track_b] ''single'')\<lparr>voice_client := Some Silent\<rparr>, Skipped, True)
   \<and> repeat (playing track_a [track_b] ''single'') = ''single''
   \<and> now (playing track_a [track_b] ''single'') = Some track_a
   \<and> truthy (stream_url track_a)
   \<and> can_start (failing_env True) (stream_url track_a)
   \<and> run_callback (failing_env True) 2 (skip (playing track_a [track_b] ''single''))
       = ((playing track_a [track_b] ''single'')\<lparr>start_time := Some 1000\<rparr>, None)"
proof -
  have vc: "voice_client (playing track_a [track_b] ''single'') = Some Playing"
    by (simp add: playing_def)
  have r: "repeat (playing track_a [track_b] ''single'') = ''single''"
    and nw: "now (playing track_a [track_b] ''single'') = Some track_a"
    by (simp_all add: playing_def)
  have tr: "truthy (stream_url track_a)" by (simp add: track_a_def truthy_def)
  have cs: "can_start (failing_env True) (stream_url track_a)" by (simp add: failing_env_def)
  have cl: "clock (failing_env True) = 1000" by (simp add: failing_env_def)
  have same: "(playing track_a [track_b] ''single'')\<lparr>voice_client := Some Playing\<rparr>
                = playing track_a [track_b] ''single''"
    by (simp add: playing_def)
  from skip_applies_repeat_policy
         [where w = "playing track_a [track_b] ''single''" and e = "failing_env True" and n = 1]
       vc r nw tr cs
  have "skip (playing track_a [track_b] ''single'')
       = ((playing track_a [track_b] ''single'')\<lparr>voice_client := Some Silent\<rparr>, Skipped, True)"
    and "run_callback (failing_env True) (Suc 1) (skip (playing track_a [track_b] ''single''))
       = ((playing track_a [track_b] ''single'')
            \<lparr>voice_client := Some Playing, start_time := Some (clock (failing_env True))\<rparr>, None)"
    by blast+
  with vc r nw tr cs show ?thesis
    unfolding cl same by (simp add: numeral_2_eq_2)
qed

text \<open>
  Playing A with B queued: in repeat mode \<^verbatim>\<open>single\<close> a skip leaves A playing again, and in
  repeat mode \<^verbatim>\<open>all\<close> it leaves A at the back of the queue.
\<close>

theorem skip_single_replays_track:
  "voice_client (playing track_a [track_b] ''single'') = Some Playing
   \<and> now (fst (run_callback (failing_env True) 2 (skip (playing track_a [track_b] ''single''))))
       = Some track_a
   \<and> queue (fst (run_callback (failing_env True) 2 (skip (playing track_a [track_b] ''single''))))
       = [track_b]
   \<and> now (fst (run_callback (failing_env True) 2 (skip (playing track_a [track_b] ''all''))))
       = Some track_b
   \<and> queue (fst (run_callback (failing_env True) 2 (skip (playing track_a [track_b] ''all''))))
       = [track_a]"
  by code_simp

text \<open>
  C2. Stop clears the queue but leaves \<^verbatim>\<open>now\<close> to the completion callback, which runs
  after the queue was cleared. In repeat mode \<^verbatim>\<open>single\<close> or \<^verbatim>\<open>all\<close> the callback queues the
  stopped track again and the advance restarts it, for the command and for the panel
  button alike: the player ends up playing, not idle, and no error is raised on the way.
  In repeat mode \<^verbatim>\<open>off\<close> the same run ends idle with an empty queue.
\<close>

theorem stop_restarts_repeated_track:
  "voice_client (playing track_a [track_b] ''single'') = Some Playing
   \<and> voice_client
        (fst (run_callback (failing_env True) 2 (stop (playing track_a [track_b] ''single''))))
       = Some Playing
   \<and> now (fst (run_callback (failing_env True) 2 (stop (playing track_a [track_b] ''single''))))
       = Some track_a
   \<and> snd (run_callback (failing_env True) 2 (stop (playing track_a [track_b] ''single'')))
       = None
   \<and> now (fst (run_callback (failing_env True) 2 (stop (playing track_a [track_b] ''all''))))
       = Some track_a
   \<and> now
        (fst (run_callback (failing_env True) 2
               (panel_stop (playing track_a [track_b] ''single''))))
       = Some track_a
   \<and> run_callback (failing_env True) 2 (stop (playing track_a [track_b] ''off''))
       = ((playing track_a [track_b] ''off'')
            \<lparr>voice_client := Some Silent, queue := [], now := None, start_time := None\<rparr>,
          None)"
  by code_simp

text \<open>Outside the repeat modes \<^verbatim>\<open>single\<close> and \<^verbatim>\<open>all\<close>, stop does end idle.\<close>

lemma stop_idle_when_repeat_off:
  assumes "voice_client w = Some Playing \<or> voice_client w = Some Paused"
    and "repeat w \<noteq> ''single''" "repeat w \<noteq> ''all''"
  shows "run_callback e (Suc n) (stop w)
           = (w\<lparr>voice_client := Some Silent, queue := [], now := None,
                 is_playlist := False, start_time := None\<rparr>, None)"
  using assms
  by (cases "now w") (auto simp: stop_def vc_stop_def run_callback_def after_play_def
        after_play_reinsert_def Let_def)

section \<open>A queue of tracks that cannot be resolved drains\<close>

text \<open>
  C5. In a player connected to voice whose queue holds N pending tracks, none of which
  resolves, the advance returns without an error, provided the interpreter has room for
  N + 1 nested calls of \<^verbatim>\<open>_play_next\<close> (N of them recursive) and every skip notice that is
  sent goes through: every track is popped and dropped, the queue is empty and \<^verbatim>\<open>now\<close> is
  empty at the end, the voice client is as it was (so a silent player ends idle), and one
  skip notice per track is sent, in queue order, when the guild has a text channel the bot
  may send to; without such a channel no notice is sent.
\<close>

theorem failing_queue_drains:
  assumes "voice_client w = Some vc"
    and "\<forall>t\<in>set (queue w). \<not> truthy (stream_url t) \<and> truthy (query t)
                            \<and> resolve_lazy_track e t = None"
    and "notice_channel e \<longrightarrow> (\<forall>t\<in>set (queue w). send_ok e (SkippedTrack (title t)))"
    and "length (queue w) < n"
  shows "play_next e n w =
           (w\<lparr>queue := [], now := None,
               sent := sent w @ (if notice_channel e
                                 then map (\<lambda>t. SkippedTrack (title t)) (queue w)
                                 else [])\<rparr>, None)"
  using assms
proof (induction "queue w" arbitrary: w n)
  case Nil
  then obtain m where n: "n = Suc m" by (cases n) auto
  from Nil show ?case
    unfolding n by simp
next
  case (Cons t ts)
  then obtain m where n: "n = Suc m" by (cases n) auto
  define w' where "w' = (if notice_channel e
                         then w\<lparr>queue := ts, sent := sent w @ [SkippedTrack (title t)]\<rparr>
                         else w\<lparr>queue := ts\<rparr>)"
  have q: "queue w = t # ts" using Cons.hyps(2) by simp
  have note_ok: "notify e (SkippedTrack (title t)) (w\<lparr>queue := ts\<rparr>) = Inr w'"
    using Cons.prems(3) q by (auto simp: notify_def w'_def)
  have step: "play_next e n w = play_next e m w'"
    unfolding n using Cons.prems(1,2) q note_ok by (simp add: Let_def)
  have q': "ts = queue w'" by (simp add: w'_def)
  have "play_next e m w' =
           (w'\<lparr>queue := [], now := None,
                sent := sent w' @ (if notice_channel e
                                   then map (\<lambda>t. SkippedTrack (title t)) (queue w')
                                   else [])\<rparr>, None)"
  proof (rule Cons.hyps(1) [OF q'])
    show "voice_client w' = Some vc" using Cons.prems(1) by (simp add: w'_def)
    show "\<forall>t\<in>set (queue w'). \<not> truthy (stream_url t) \<and> truthy (query t)
                            \<and> resolve_lazy_track e t = None"
      using Cons.prems(2) q by (simp add: w'_def)
    show "notice_channel e \<longrightarrow> (\<forall>t\<in>set (queue w'). send_ok e (SkippedTrack (title t)))"
      using Cons.prems(3) q by (simp add: w'_def)
    show "length (queue w') < m" using Cons.prems(4) q n by (simp add: w'_def)
  qed
  then show ?case
    unfolding step using q by (simp add: w'_def)
qed

theorem failing_queue_drains_witness:
  "voice_client (waiting [pending_track ''Song A'', pending_track ''Song B'']) = Some Silent
   \<and> queue (waiting [pending_track ''Song A'', pending_track ''Song B''])
       = [pending_track ''Song A'', pending_track ''Song B'']
   \<and> \<not> truthy (stream_url (pending_track ''Song A''))
   \<and> truthy (query (pending_track ''Song A''))
   \<and> resolve_lazy_track (failing_env True) (pending_track ''Song A'') = None
   \<and> \<not> truthy (stream_url (pending_track ''Song B''))
   \<and> truthy (query (pending_track ''Song B''))
   \<and> resolve_lazy_track (failing_env True) (pending_track ''Song B'') = None
   \<and> send_ok (failing_env True) (SkippedTrack (title (pending_track ''Song A'')))
   \<and> send_ok (failing_env True) (SkippedTrack (title (pending_track ''Song B'')))
   \<and> length (queue (waiting [pending_track ''Song A'', pending_track ''Song B''])) < 3
   \<and> play_next (failing_env True) 3 (waiting [pending_track ''Song A'', pending_track ''Song B''])
       = ((waiting [])
            \<lparr>sent := [SkippedTrack (Some ''Song A''), SkippedTrack (Some ''Song B'')]\<rparr>, None)"
proof -
  have vc: "voice_client (waiting [pending_track ''Song A'', pending_track ''Song B''])
              = Some Silent"
    by (simp add: waiting_def)
  have q: "queue (waiting [pending_track ''Song A'', pending_track ''Song B''])
              = [pending_track ''Song A'', pending_track ''Song B'']"
    by (simp add: waiting_def)
  have a: "\<not> truthy (stream_url (pending_track ''Song A'')) \<and> truthy (query (pending_track ''Song A''))
         \<and> resolve_lazy_track (failing_env True) (pending_track ''Song A'') = None"
    by code_simp
  have b: "\<not> truthy (stream_url (pending_track ''Song B'')) \<and> truthy (query (pending_track ''Song B''))
         \<and> resolve_lazy_track (failing_env True) (pending_track ''Song B'') = None"
    by code_simp
  have s: "send_ok (failing_env True) m" for m
    by (simp add: failing_env_def)
  have pending: "\<forall>t\<in>set (queue (waiting [pending_track ''Song A'', pending_track ''Song B''])).
         \<not> truthy (stream_url t) \<and> truthy (query t)
         \<and> resolve_lazy_track (failing_env True) t = None"
    unfolding q using a b by simp
  have sends: "notice_channel (failing_env True) \<longrightarrow>
      (\<forall>t\<in>set (queue (waiting [pending_track ''Song A'', pending_track ''Song B''])).
         send_ok (failing_env True) (SkippedTrack (title t)))"
    using s by simp
  have len: "length (queue (waiting [pending_track ''Song A'', pending_track ''Song B''])) < 3"
    unfolding q by simp
  have "play_next (failing_env True) 3 (waiting [pending_track ''Song A'', pending_track ''Song B''])
       = ((waiting [])
            \<lparr>sent := [SkippedTrack (Some ''Song A''), SkippedTrack (Some ''Song B'')]\<rparr>, None)"
    unfolding failing_queue_drains [OF vc pending sends len]
    by (simp add: waiting_def get_player_def failing_env_def pending_track_def)
  with vc q a b s len show ?thesis by blast
qed

text \<open>
  Each proviso is needed. Without a text channel a failing track is dropped and no notice
  is sent. A player without a voice client returns at once and keeps its queue. With room
  for two nested calls only, a queue of three failing tracks ends in a
  \<^verbatim>\<open>RecursionError\<close> with the third track still queued. When the send of the notice
  raises, the advance ends there, with the second track still queued.
\<close>

theorem drain_breaks_without_channel_client_depth_or_send:
  "length (queue (waiting [pending_track ''Song A''])) = 1
   \<and> resolve_lazy_track (failing_env False) (pending_track ''Song A'') = None
   \<and> play_next (failing_env False) 2 (waiting [pending_track ''Song A'']) = (waiting [], None)
   \<and> sent (fst (play_next (failing_env False) 2 (waiting [pending_track ''Song A'']))) = []
   \<and> play_next (failing_env True) 2 (unconnected [pending_track ''Song A''])
       = (unconnected [pending_track ''Song A''], None)
   \<and> play_next (failing_env True) 2
        (waiting [pending_track ''Song A'', pending_track ''Song B'', pending_track ''Song C''])
       = ((waiting [pending_track ''Song C''])
            \<lparr>sent := [SkippedTrack (Some ''Song A''), SkippedTrack (Some ''Song B'')]\<rparr>,
          Some RecursionError)
   \<and> play_next send_failing_env 3 (waiting [pending_track ''Song A'', pending_track ''Song B''])
       = (waiting [pending_track ''Song B''], Some SendFailed)"
  by code_simp

end
